theory Spec2Isabelle
  imports Main "HOL-Library.Sublist" "HOL-Library.AList"
begin

section \<open>JavaScript strings\<close>

text \<open>
  A JavaScript string is a sequence of code units. The model uses \<^typ>\<open>string\<close>, so it
  covers the code units below 256; the separators the plugin looks for
  (\<open>;\<close>, \<open>=\<close>, \<open>/\<close>) are all ASCII.
\<close>

text \<open>\<open>s.split(sep)\<close> for a one-character separator: never the empty array.\<close>

fun split :: "char \<Rightarrow> string \<Rightarrow> string list" where
  "split sep [] = [[]]"
| "split sep (c # cs) =
     (if c = sep then [] # split sep cs
      else (case split sep cs of
              [] \<Rightarrow> [[c]]
            | w # ws \<Rightarrow> (c # w) # ws))"

text \<open>\<open>s.indexOf(c)\<close>: the first position of \<open>c\<close>, or \<open>-1\<close>.\<close>

fun indexOf :: "string \<Rightarrow> char \<Rightarrow> int" where
  "indexOf [] c = - 1"
| "indexOf (x # xs) c =
     (if x = c then 0
      else (let i = indexOf xs c in if i < 0 then - 1 else i + 1))"

text \<open>\<open>s.slice(a, b)\<close> and \<open>s.slice(a)\<close> for non-negative bounds.\<close>

definition slice :: "string \<Rightarrow> nat \<Rightarrow> nat \<Rightarrow> string" where
  "slice s a b = take (b - a) (drop a s)"

definition slice_from :: "string \<Rightarrow> nat \<Rightarrow> string" where
  "slice_from s a = drop a s"

text \<open>
  The white space and line terminators that \<open>trim\<close> strips, among the code units below
  256: TAB, LF, VT, FF, CR, SP and NBSP.
\<close>

definition isWhiteSpace :: "char \<Rightarrow> bool" where
  "isWhiteSpace c = ((of_char c :: nat) \<in> {9, 10, 11, 12, 13, 32, 160})"

definition trim :: "string \<Rightarrow> string" where
  "trim s = rev (dropWhile isWhiteSpace (rev (dropWhile isWhiteSpace s)))"

text \<open>\<open>parts.join(sep)\<close>.\<close>

fun join :: "string \<Rightarrow> string list \<Rightarrow> string" where
  "join sep [] = []"
| "join sep [x] = x"
| "join sep (x # y # ys) = x @ sep @ join sep (y # ys)"

section \<open>The cookie jar\<close>

text \<open>
  \<open>CookieJar = Map<string, string>\<close>. A JavaScript \<open>Map\<close> enumerates its entries in
  insertion order, and \<open>set\<close> on a key already present replaces the value where the
  entry stands: an association list updated in place.
\<close>

type_synonym CookieJar = "(string \<times> string) list"

definition jar_set :: "string \<Rightarrow> string \<Rightarrow> CookieJar \<Rightarrow> CookieJar" where
  "jar_set name v jar = AList.update name v jar"

text \<open>The argument \<open>raw: string | string[] | undefined\<close>; \<open>undefined\<close> is \<open>None\<close>.\<close>

datatype raw_header = Single string | Many "string list"

text \<open>\<open>!raw\<close>: \<open>undefined\<close> and the empty string are falsy, every array is truthy.\<close>

fun falsy_raw :: "raw_header option \<Rightarrow> bool" where
  "falsy_raw None = True"
| "falsy_raw (Some (Single s)) = (s = [])"
| "falsy_raw (Some (Many ls)) = False"

text \<open>\<open>Array.isArray(raw) ? raw : [raw]\<close>.\<close>

fun lines_of :: "raw_header \<Rightarrow> string list" where
  "lines_of (Single s) = [s]"
| "lines_of (Many ls) = ls"

text \<open>The exceptions of the model: the \<open>TypeError\<close> of a method call on \<open>undefined\<close>, and the
  error of \<open>setHeader\<close> on a request whose headers are already sent.\<close>

datatype js_error = TypeError | ERR_HTTP_HEADERS_SENT

subsection \<open>\<open>storeCookies\<close> of the cookie utilities module\<close>

text \<open>
  The body of the \<open>forEach\<close> callback. \<open>const [name, value] = nv.split("=")\<close> leaves
  \<open>value\<close> undefined when \<open>nv\<close> has no \<open>=\<close>; then \<open>value.trim()\<close> throws a
  \<open>TypeError\<close>, unless the empty \<open>name\<close> has skipped the line.
\<close>

definition store_line :: "CookieJar \<Rightarrow> string \<Rightarrow> js_error + CookieJar" where
  "store_line jar line =
     (let nv = hd (split CHR '';'' line);
          parts = split CHR ''='' nv;
          name = hd parts
      in if name \<noteq> [] then
           (case tl parts of
              [] \<Rightarrow> Inl TypeError
            | v # _ \<Rightarrow> Inr (jar_set (trim name) (trim v) jar))
         else Inr jar)"

text \<open>
  \<open>lines.forEach\<close>: the jar is mutated in place, so an exception leaves the entries of
  the earlier lines in the jar. \<open>Inl (e, jar)\<close> is the exception with the jar as it is
  when thrown.
\<close>

fun forEach_store :: "CookieJar \<Rightarrow> string list \<Rightarrow> (js_error \<times> CookieJar) + CookieJar" where
  "forEach_store jar [] = Inr jar"
| "forEach_store jar (line # ls) =
     (case store_line jar line of
        Inl e \<Rightarrow> Inl (e, jar)
      | Inr jar' \<Rightarrow> forEach_store jar' ls)"

definition storeCookies ::
    "CookieJar \<Rightarrow> raw_header option \<Rightarrow> (js_error \<times> CookieJar) + CookieJar" where
  "storeCookies jar raw =
     (if falsy_raw raw then Inr jar
      else (case raw of
              None \<Rightarrow> Inr jar
            | Some r \<Rightarrow> forEach_store jar (lines_of r)))"

subsection \<open>\<open>storeCookies\<close> of the all-in-one plugin file\<close>

definition index_store_line :: "CookieJar \<Rightarrow> string \<Rightarrow> CookieJar" where
  "index_store_line jar line =
     (let pair = hd (split CHR '';'' line);
          idx = indexOf pair CHR ''=''
      in if idx > 0 then
           jar_set (trim (slice pair 0 (nat idx))) (trim (slice_from pair (nat (idx + 1)))) jar
         else jar)"

definition index_storeCookies :: "CookieJar \<Rightarrow> raw_header option \<Rightarrow> CookieJar" where
  "index_storeCookies jar raw =
     (if falsy_raw raw then jar
      else (case raw of
              None \<Rightarrow> jar
            | Some r \<Rightarrow> foldl index_store_line jar (lines_of r)))"

subsection \<open>\<open>jarToString\<close>\<close>

definition jarToString :: "CookieJar \<Rightarrow> string" where
  "jarToString jar = join ''; '' (map (\<lambda>(k, v). k @ ''='' @ v) jar)"

section \<open>The two copies of the plugin\<close>

text \<open>
  The plugin exists twice in the repository: split into modules (options, cookie
  utilities, proxy handler, plugin entry) and as one all-in-one file. The two differ in
  \<open>storeCookies\<close>, in what becomes of an exception of the \<open>proxyReq\<close> handler and in
  where the variable of the gate is assigned; the handlers are otherwise the same code, so
  they are modelled once, with the copy as a parameter.
\<close>

datatype copy = Modular | AllInOne

text \<open>The \<open>storeCookies\<close> a copy calls.\<close>

fun storeCookies_of :: "copy \<Rightarrow> CookieJar \<Rightarrow> raw_header option \<Rightarrow> (js_error \<times> CookieJar) + CookieJar" where
  "storeCookies_of Modular jar raw = storeCookies jar raw"
| "storeCookies_of AllInOne jar raw = Inr (index_storeCookies jar raw)"

section \<open>Composing the outbound Cookie header\<close>

text \<open>\<open>[existingCookies, pluginCookies].filter(Boolean)\<close> drops \<open>undefined\<close> and the empty string.\<close>

fun filter_Boolean :: "string option list \<Rightarrow> string list" where
  "filter_Boolean [] = []"
| "filter_Boolean (None # xs) = filter_Boolean xs"
| "filter_Boolean (Some s # xs) = (if s = [] then filter_Boolean xs else s # filter_Boolean xs)"

definition combinedCookies :: "string option \<Rightarrow> CookieJar \<Rightarrow> string" where
  "combinedCookies existingCookies jar =
     join ''; '' (filter_Boolean [existingCookies, Some (jarToString jar)])"

text \<open>
  The body of the \<open>proxyReq\<close> handler after the gate. \<open>proxyReq_setHeader\<close> is the value
  \<open>setHeader("cookie", _)\<close> is called with, \<open>None\<close> when it is not called.
\<close>

definition proxyReq_setHeader :: "CookieJar \<Rightarrow> string option \<Rightarrow> string option" where
  "proxyReq_setHeader jar existingCookies =
     (let c = combinedCookies existingCookies jar in if c \<noteq> [] then Some c else None)"

text \<open>
  The body runs in an \<open>async\<close> function after \<open>await gateRefresh()\<close>, so after the
  \<open>proxyReq\<close> event of the transport has returned. Whether the transport has sent the
  headers of the request by then is not decided by the plugin, so it is a parameter:
  \<open>setHeader\<close> on a request whose headers are sent throws and leaves the header as it
  is. The all-in-one file swallows what the function throws (\<open>.catch\<close>); the proxy handler
  module calls it with \<open>void\<close>, and the rejection is unhandled. The result is the Cookie
  header of the request afterwards and the exception that is left unhandled, if any.
\<close>

definition proxyReq_handler ::
    "copy \<Rightarrow> bool \<Rightarrow> CookieJar \<Rightarrow> string option \<Rightarrow> string option \<times> js_error option" where
  "proxyReq_handler cp headersSent jar existingCookies =
     (case proxyReq_setHeader jar existingCookies of
        None \<Rightarrow> (existingCookies, None)
      | Some c \<Rightarrow>
          if headersSent then
            (existingCookies,
             case cp of Modular \<Rightarrow> Some ERR_HTTP_HEADERS_SENT | AllInOne \<Rightarrow> None)
          else (Some c, None))"

section \<open>Regular expressions\<close>

text \<open>
  The fragment of the regular expression syntax that the literals of the source use:
  characters, sequence, alternation and the assertion \<open>^\<close>. The matcher returns every way
  the pattern can match at a position of the input, as the position and the rest of the
  input after the match.
\<close>

datatype regex = Chr char | Eps | Seq regex regex | Alt regex regex | Bol

text \<open>
  \<open>Canonicalize\<close> of the language standard, without the \<open>u\<close> flag: under \<open>ignoreCase\<close> a
  code unit is compared through its upper case, unless that is more than one code unit, or
  it would turn a code unit outside ASCII into an ASCII one.
\<close>

definition toUpperCase_unit :: "nat \<Rightarrow> nat" where
  "toUpperCase_unit n =
     (if 97 \<le> n \<and> n \<le> 122 then n - 32
      else if 224 \<le> n \<and> n \<le> 254 \<and> n \<noteq> 247 then n - 32
      else if n = 255 then 376
      else if n = 181 then 924
      else n)"

definition Canonicalize :: "bool \<Rightarrow> char \<Rightarrow> nat" where
  "Canonicalize ic c =
     (let n = of_char c in
      if \<not> ic then n
      else (let cu = toUpperCase_unit n in if 128 \<le> n \<and> cu < 128 then n else cu))"

fun rmatch :: "bool \<Rightarrow> regex \<Rightarrow> nat \<times> string \<Rightarrow> (nat \<times> string) list" where
  "rmatch ic (Chr c) (pos, s) =
     (case s of
        [] \<Rightarrow> []
      | x # xs \<Rightarrow> if Canonicalize ic x = Canonicalize ic c then [(Suc pos, xs)] else [])"
| "rmatch ic Eps st = [st]"
| "rmatch ic (Seq a b) st = concat (map (rmatch ic b) (rmatch ic a st))"
| "rmatch ic (Alt a b) st = rmatch ic a st @ rmatch ic b st"
| "rmatch ic Bol (pos, s) = (if pos = 0 then [(pos, s)] else [])"

fun lit :: "string \<Rightarrow> regex" where
  "lit [] = Eps"
| "lit (c # cs) = Seq (Chr c) (lit cs)"

record RegExp =
  pattern :: regex
  ignoreCase :: bool

text \<open>
  \<open>re.test(s)\<close> for a regular expression without the \<open>g\<close> and \<open>y\<close> flags: a match
  starting at some position of \<open>s\<close>.
\<close>

definition RegExp_test :: "RegExp \<Rightarrow> string \<Rightarrow> bool" where
  "RegExp_test re s =
     list_ex (\<lambda>i. rmatch (ignoreCase re) (pattern re) (i, drop i s) \<noteq> []) [0..<Suc (length s)]"

text \<open>The literal \<open>/^\/api/\<close>.\<close>

definition api_regex :: RegExp where
  "api_regex = \<lparr>pattern = Seq Bol (lit ''/api''), ignoreCase = False\<rparr>"

text \<open>The literal \<open>/\/(login|sso)\//i\<close>.\<close>

definition login_sso_regex :: RegExp where
  "login_sso_regex =
     \<lparr>pattern = Seq (Chr CHR ''/'') (Seq (Alt (lit ''login'') (lit ''sso'')) (Chr CHR ''/'')),
      ignoreCase = True\<rparr>"

section \<open>Path rules\<close>

text \<open>
  \<open>apiPaths: (RegExp | string)[]\<close>. A pattern rule is used through its \<open>test\<close> method
  only, so it is modelled by that predicate (of a regular expression without the \<open>g\<close> and
  \<open>y\<close> flags, whose \<open>test\<close> has no state).
\<close>

datatype PathRule = Str string | Pat "string \<Rightarrow> bool"

definition startsWith :: "string \<Rightarrow> string \<Rightarrow> bool" where
  "startsWith s p = (take (length p) s = p)"

text \<open>\<open>s[i]\<close>: \<open>undefined\<close> out of range.\<close>

definition charAt :: "string \<Rightarrow> nat \<Rightarrow> char option" where
  "charAt s i = (if i < length s then Some (s ! i) else None)"

fun rule_test :: "string \<Rightarrow> PathRule \<Rightarrow> bool" where
  "rule_test pathname (Str p) =
     (startsWith pathname p \<and>
      (length pathname = length p \<or> charAt pathname (length p) = Some CHR ''/''))"
| "rule_test pathname (Pat re) = re pathname"

definition filterFunction :: "PathRule list \<Rightarrow> string \<Rightarrow> bool" where
  "filterFunction apiPaths pathname = list_ex (rule_test pathname) apiPaths"

text \<open>
  The path matcher in the words of the specification: a literal prefix matches when the
  path starts with it and the character right after the prefix is absent or \<open>/\<close>; a pattern
  matches when it accepts the path.
\<close>

fun spec_rule_matches :: "PathRule \<Rightarrow> string \<Rightarrow> bool" where
  "spec_rule_matches (Str p) path =
     (prefix p path \<and>
      (case drop (length p) path of
         [] \<Rightarrow> True
       | c # _ \<Rightarrow> c = CHR ''/''))"
| "spec_rule_matches (Pat re) path = re path"

section \<open>Options\<close>

record IncomingHttpHeaders =
  location :: "string option"
  set_cookie :: "string list option"

type_synonym AxiosRequestConfig = "(string \<times> string) list"

text \<open>
  The options that the proxy reads. \<open>opt_headlessLogin\<close> is \<open>None\<close> for \<open>undefined\<close>
  and for \<open>false\<close>, which \<open>normalizeOptions\<close> does not tell apart.
\<close>

record AuthDevPluginOptions =
  opt_apiPaths :: "PathRule list option"
  opt_headlessLogin :: "AxiosRequestConfig option"
  opt_ws :: "bool option"
  opt_unauthDetector :: "(int \<Rightarrow> IncomingHttpHeaders \<Rightarrow> bool) option"

record NormalizedOptions =
  apiPaths :: "PathRule list"
  headlessLogin :: "AxiosRequestConfig option"
  ws :: bool
  unauthDetector :: "int \<Rightarrow> IncomingHttpHeaders \<Rightarrow> bool"

definition default_unauthDetector :: "int \<Rightarrow> IncomingHttpHeaders \<Rightarrow> bool" where
  "default_unauthDetector status hdrs =
     (status = 401 \<or>
      (status = 302 \<and>
       RegExp_test login_sso_regex (case location hdrs of None \<Rightarrow> [] | Some l \<Rightarrow> l)))"

definition normalizeOptions :: "AuthDevPluginOptions \<Rightarrow> NormalizedOptions" where
  "normalizeOptions opts =
     \<lparr>apiPaths = (case opt_apiPaths opts of None \<Rightarrow> [Pat (RegExp_test api_regex)] | Some ps \<Rightarrow> ps),
      headlessLogin = opt_headlessLogin opts,
      ws = (case opt_ws opts of None \<Rightarrow> False | Some b \<Rightarrow> b),
      unauthDetector =
        (case opt_unauthDetector opts of None \<Rightarrow> default_unauthDetector | Some d \<Rightarrow> d)\<rparr>"

text \<open>
  The detector in the words of the specification: the Location header contains
  \<open>/login/\<close> or \<open>/sso/\<close>, letters compared without regard to case.
\<close>

definition ascii_lower :: "char \<Rightarrow> char" where
  "ascii_lower c =
     (let n = (of_char c :: nat) in if 65 \<le> n \<and> n \<le> 90 then char_of (n + 32) else c)"

definition contains_ci :: "string \<Rightarrow> string \<Rightarrow> bool" where
  "contains_ci w s = sublist w (map ascii_lower s)"

definition spec_isUnauthenticated :: "int \<Rightarrow> IncomingHttpHeaders \<Rightarrow> bool" where
  "spec_isUnauthenticated status hdrs =
     (status = 401 \<or>
      (status = 302 \<and>
       (let loc = (case location hdrs of None \<Rightarrow> [] | Some l \<Rightarrow> l)
        in contains_ci ''/login/'' loc \<or> contains_ci ''/sso/'' loc)))"

section \<open>The headless login\<close>

text \<open>What a \<open>catch\<close> receives: an exception of the plugin's own code, or whatever the HTTP
  client rejected with (a transport error, a status outside 2xx, a timeout), described by a
  string.\<close>

datatype thrown = Internal js_error | External string

text \<open>How the request of the HTTP client settles: fulfilled with the response's Set-Cookie
  header, or rejected.\<close>

datatype axios_result = Fulfilled "string list option" | Rejected thrown

text \<open>
  The log sink \<open>onLog\<close> is taken to record the message and return. An entry says which
  message was logged; the texts differ between the two copies and are left out.
\<close>

datatype log_msg =
    ConfiguringServer
  | ProxyingPaths
  | WebSocketEnabled
  | ConfigurationComplete
  | LoginSucceeded string
  | LoginFailed string thrown
  | UnauthRefreshing

type_synonym store = "CookieJar \<times> log_msg list"

text \<open>
  The \<open>try\<close> block of \<open>doHeadlessLogin\<close> from the point where the request has settled:
  \<open>Inl\<close> is what it throws, with the store as it is then.
\<close>

definition login_try :: "copy \<Rightarrow> string \<Rightarrow> axios_result \<Rightarrow> store \<Rightarrow> (thrown \<times> store) + store" where
  "login_try cp label ax st =
     (case ax of
        Rejected e \<Rightarrow> Inl (e, st)
      | Fulfilled sc \<Rightarrow>
          (case storeCookies_of cp (fst st) (map_option Many sc) of
             Inl (e, jar') \<Rightarrow> Inl (Internal e, (jar', snd st))
           | Inr jar' \<Rightarrow> Inr (jar', snd st @ [LoginSucceeded label])))"

text \<open>The \<open>catch\<close> block.\<close>

definition login_catch :: "string \<Rightarrow> thrown \<Rightarrow> store \<Rightarrow> store" where
  "login_catch label e st = (fst st, snd st @ [LoginFailed label e])"

text \<open>
  \<open>doHeadlessLogin\<close> after its \<open>await\<close>. The second component of the result is the
  exception that leaves the function (the rejection of its promise), if any.
\<close>

definition login_settle :: "copy \<Rightarrow> string \<Rightarrow> axios_result \<Rightarrow> store \<Rightarrow> store \<times> thrown option" where
  "login_settle cp label ax st =
     (case login_try cp label ax st of
        Inr st' \<Rightarrow> (st', None)
      | Inl (e, st') \<Rightarrow> (login_catch label e st', None))"

text \<open>
  \<open>doHeadlessLogin\<close> as a whole, the outcome of its one request given: nothing happens
  when the headless login is disabled.
\<close>

definition doHeadlessLogin ::
    "copy \<Rightarrow> store \<Rightarrow> NormalizedOptions \<Rightarrow> string \<Rightarrow> axios_result \<Rightarrow> store \<times> thrown option" where
  "doHeadlessLogin cp st options label ax =
     (if headlessLogin options = None then (st, None) else login_settle cp label ax st)"

section \<open>The proxy as a state machine\<close>

text \<open>
  The plugin runs on an event loop: a handler runs to its end, with every continuation
  that is ready, before the next event is taken. The state is that of one plugin object on
  one server. It holds the jar, the log, the two promise variables (\<open>refreshingPromise\<close>,
  named \<open>globalRefresh\<close> in the all-in-one file, is read by \<open>gateRefresh\<close>;
  \<open>activeRefreshPromise\<close>, named \<open>activeRefresh\<close> there, is the reactive refresh), and what
  the model observes: the number of calls of \<open>doHeadlessLogin\<close>, the calls whose request is
  in flight with their labels (the latest first), whether the proxy middleware is
  installed, the requests suspended in \<open>gateRefresh\<close> with the promise each awaits, the
  Cookie header of every request whose handler has run to its end, and the exceptions
  that were left unhandled. A promise is identified by the number of the call of
  \<open>doHeadlessLogin\<close> that made it.
\<close>

record proxy_state =
  jar :: CookieJar
  logs :: "log_msg list"
  refreshingPromise :: "nat option"
  activeRefreshPromise :: "nat option"
  login_calls :: nat
  in_flight :: "(nat \<times> string) list"
  installed :: bool
  waiting :: "(nat \<times> string option \<times> bool) list"
  composed :: "string option list"
  uncaught :: "js_error list"

definition init_state :: proxy_state where
  "init_state =
     \<lparr>jar = [], logs = [], refreshingPromise = None, activeRefreshPromise = None,
      login_calls = 0, in_flight = [], installed = False, waiting = [], composed = [],
      uncaught = []\<rparr>"

datatype response = Response (statusCode: "int option") (headers: IncomingHttpHeaders)

text \<open>
  The events: the build tool calls \<open>configureServer\<close>; the transport emits \<open>proxyReq\<close> for
  a request (with the Cookie header the request has, and whether the transport will have
  sent the headers when the handler's \<open>async\<close> body runs on); the transport emits
  \<open>proxyRes\<close>; the request of the login with the given number settles.
\<close>

datatype event =
    ConfigureServer
  | ProxyReq "string option" bool
  | ProxyRes response
  | LoginSettled nat axios_result

text \<open>The log lines after the proxy middleware is installed. A middleware installed by a
  later call of \<open>configureServer\<close> stands behind the first one, which answers every
  request of the proxied paths.\<close>

definition install_proxy :: "copy \<Rightarrow> NormalizedOptions \<Rightarrow> proxy_state \<Rightarrow> proxy_state" where
  "install_proxy cp options s =
     s\<lparr>installed := True,
       logs := logs s @ [ProxyingPaths] @ (if ws options then [WebSocketEnabled] else [])
                 @ (case cp of Modular \<Rightarrow> [ConfigurationComplete] | AllInOne \<Rightarrow> [])\<rparr>"

text \<open>
  \<open>configureServer\<close>: the startup login. Only the all-in-one file records its promise in
  the variable of the gate; the proxy is installed once the login has settled. With the
  headless login disabled the login settles in the same turn, and \<open>finally\<close> clears the
  variable again.
\<close>

definition on_configureServer :: "copy \<Rightarrow> NormalizedOptions \<Rightarrow> proxy_state \<Rightarrow> proxy_state" where
  "on_configureServer cp options s =
     (let s1 = s\<lparr>logs := logs s @ [ConfiguringServer], login_calls := Suc (login_calls s)\<rparr>
      in if headlessLogin options = None then
           install_proxy cp options
             (case cp of Modular \<Rightarrow> s1 | AllInOne \<Rightarrow> s1\<lparr>refreshingPromise := None\<rparr>)
         else s1\<lparr>in_flight := (login_calls s1, ''startup'') # in_flight s1,
                 refreshingPromise :=
                   (case cp of Modular \<Rightarrow> refreshingPromise s1 | AllInOne \<Rightarrow> Some (login_calls s1))\<rparr>)"

text \<open>The \<open>proxyReq\<close> handler: \<open>await gateRefresh()\<close>, then the cookies.\<close>

definition compose_cookies :: "copy \<Rightarrow> proxy_state \<Rightarrow> string option \<Rightarrow> bool \<Rightarrow> proxy_state" where
  "compose_cookies cp s existingCookies headersSent =
     (let res = proxyReq_handler cp headersSent (jar s) existingCookies
      in s\<lparr>composed := composed s @ [fst res],
           uncaught := uncaught s @ (case snd res of None \<Rightarrow> [] | Some e \<Rightarrow> [e])\<rparr>)"

definition on_proxyReq :: "copy \<Rightarrow> proxy_state \<Rightarrow> string option \<Rightarrow> bool \<Rightarrow> proxy_state" where
  "on_proxyReq cp s existingCookies headersSent =
     (case refreshingPromise s of
        Some p \<Rightarrow> s\<lparr>waiting := waiting s @ [(p, existingCookies, headersSent)]\<rparr>
      | None \<Rightarrow> compose_cookies cp s existingCookies headersSent)"

text \<open>
  The block of the \<open>proxyRes\<close> handler that starts the reactive refresh. With the headless
  login disabled the promise of \<open>doHeadlessLogin\<close> is settled when it is made, and
  \<open>finally\<close> has cleared the variable before the next event.
\<close>

definition start_refresh :: "NormalizedOptions \<Rightarrow> proxy_state \<Rightarrow> proxy_state" where
  "start_refresh options s =
     (let s1 = s\<lparr>logs := logs s @ [UnauthRefreshing], login_calls := Suc (login_calls s)\<rparr>
      in if headlessLogin options = None then s1
         else s1\<lparr>in_flight := (login_calls s1, ''refresh'') # in_flight s1,
                 activeRefreshPromise := Some (login_calls s1)\<rparr>)"

definition refresh_if_unauth :: "NormalizedOptions \<Rightarrow> response \<Rightarrow> proxy_state \<Rightarrow> proxy_state" where
  "refresh_if_unauth options r s =
     (if unauthDetector options (case statusCode r of None \<Rightarrow> 0 | Some c \<Rightarrow> c) (headers r) then
        (if activeRefreshPromise s = None then start_refresh options s else s)
      else s)"

definition on_proxyRes :: "copy \<Rightarrow> NormalizedOptions \<Rightarrow> proxy_state \<Rightarrow> response \<Rightarrow> proxy_state" where
  "on_proxyRes cp options s r =
     (case storeCookies_of cp (jar s) (map_option Many (set_cookie (headers r))) of
        Inl (e, jar') \<Rightarrow> s\<lparr>jar := jar', uncaught := uncaught s @ [e]\<rparr>
      | Inr jar' \<Rightarrow> refresh_if_unauth options r (s\<lparr>jar := jar'\<rparr>))"

text \<open>The requests suspended in \<open>gateRefresh\<close> on the promise \<open>p\<close> go on, in the order they
  came, once \<open>p\<close> has settled.\<close>

definition release_waiting :: "copy \<Rightarrow> nat \<Rightarrow> proxy_state \<Rightarrow> proxy_state" where
  "release_waiting cp p s =
     foldl (\<lambda>s' w. compose_cookies cp s' (fst (snd w)) (snd (snd w)))
       (s\<lparr>waiting := filter (\<lambda>w. fst w \<noteq> p) (waiting s)\<rparr>)
       (filter (\<lambda>w. fst w = p) (waiting s))"

text \<open>
  The request of the login \<open>p\<close> settles: the rest of \<open>doHeadlessLogin\<close> runs, then the
  \<open>finally\<close> callback of its caller (which clears the variable whatever it holds by
  then), then whatever awaited the promise.
\<close>

definition on_loginSettled ::
    "copy \<Rightarrow> NormalizedOptions \<Rightarrow> proxy_state \<Rightarrow> nat \<Rightarrow> axios_result \<Rightarrow> proxy_state" where
  "on_loginSettled cp options s p ax =
     (case map_of (in_flight s) p of
        None \<Rightarrow> s
      | Some label \<Rightarrow>
          (let st = fst (login_settle cp label ax (jar s, logs s));
               s1 = s\<lparr>jar := fst st, logs := snd st,
                      in_flight := filter (\<lambda>c. fst c \<noteq> p) (in_flight s)\<rparr>
           in if label = ''startup'' then
                install_proxy cp options
                  (case cp of
                     Modular \<Rightarrow> s1
                   | AllInOne \<Rightarrow> release_waiting cp p (s1\<lparr>refreshingPromise := None\<rparr>))
              else s1\<lparr>activeRefreshPromise := None\<rparr>))"

text \<open>A request or response of the proxy exists only once the middleware is installed.\<close>

fun step :: "copy \<Rightarrow> NormalizedOptions \<Rightarrow> proxy_state \<Rightarrow> event \<Rightarrow> proxy_state" where
  "step cp options s ConfigureServer = on_configureServer cp options s"
| "step cp options s (ProxyReq existingCookies headersSent) =
     (if installed s then on_proxyReq cp s existingCookies headersSent else s)"
| "step cp options s (ProxyRes r) = (if installed s then on_proxyRes cp options s r else s)"
| "step cp options s (LoginSettled p ax) = on_loginSettled cp options s p ax"

definition run :: "copy \<Rightarrow> NormalizedOptions \<Rightarrow> proxy_state \<Rightarrow> event list \<Rightarrow> proxy_state" where
  "run cp options s evs = foldl (step cp options) s evs"

text \<open>
  A response triggers the reactive refresh when the \<open>proxyRes\<close> handler reaches the
  check and the detector fires. The handler reaches the check unless \<open>storeCookies\<close>
  throws, which depends on the header and not on the jar.
\<close>

definition merge_throws :: "copy \<Rightarrow> response \<Rightarrow> bool" where
  "merge_throws cp r = isl (storeCookies_of cp [] (map_option Many (set_cookie (headers r))))"

definition is_trigger :: "copy \<Rightarrow> NormalizedOptions \<Rightarrow> response \<Rightarrow> bool" where
  "is_trigger cp options r =
     (\<not> merge_throws cp r \<and>
      unauthDetector options (case statusCode r of None \<Rightarrow> 0 | Some c \<Rightarrow> c) (headers r))"

subsection \<open>Example inputs\<close>

definition example_options :: NormalizedOptions where
  "example_options =
     \<lparr>apiPaths = [Str ''/api''], headlessLogin = Some [], ws = False,
      unauthDetector = default_unauthDetector\<rparr>"


definition response_401 :: response where
  "response_401 = Response (Some 401) \<lparr>location = None, set_cookie = None\<rparr>"



text \<open>The startup login stores \<open>session=old\<close>; a response with status 401 starts the
  reactive refresh; a request arrives while that refresh is in flight, its headers not
  yet sent.\<close>

definition request_during_refresh :: "event list" where
  "request_during_refresh =
     [ConfigureServer, LoginSettled 1 (Fulfilled (Some [''session=old''])),
      ProxyRes response_401, ProxyReq None False]"

section \<open>Auxiliary notions\<close>

text \<open>A word matches at the head of a string, the code units compared through
  \<open>Canonicalize\<close>.\<close>

fun ci_prefix :: "bool \<Rightarrow> string \<Rightarrow> string \<Rightarrow> bool" where
  "ci_prefix ic [] s = True"
| "ci_prefix ic (c # cs) [] = False"
| "ci_prefix ic (c # cs) (x # xs) = (Canonicalize ic x = Canonicalize ic c \<and> ci_prefix ic cs xs)"

text \<open>The characters of the two literals under \<open>ignoreCase\<close>: small ASCII letters and \<open>/\<close>.\<close>

definition plain :: "char \<Rightarrow> bool" where
  "plain c = (let n = (of_char c :: nat) in (97 \<le> n \<and> n \<le> 122) \<or> n = 47)"



text \<open>No name and no value of the jar contains \<open>;\<close>, as in every jar that \<open>storeCookies\<close>
  has filled.\<close>

definition no_semicolon :: "CookieJar \<Rightarrow> bool" where
  "no_semicolon j = list_all (\<lambda>e. CHR '';'' \<notin> set (fst e) \<and> CHR '';'' \<notin> set (snd e)) j"


text \<open>
  What the variable of the gate can hold: nothing in the modular copy; in the all-in-one
  file the promise of a startup login that is in flight. The numbers of the logins in
  flight are at most the number of calls so far.
\<close>

definition gate_inv :: "copy \<Rightarrow> proxy_state \<Rightarrow> bool" where
  "gate_inv cp s =
     ((case refreshingPromise s of
         None \<Rightarrow> True
       | Some p \<Rightarrow> cp = AllInOne \<and> map_of (in_flight s) p = Some ''startup'')
      \<and> list_all (\<lambda>c. fst c \<le> login_calls s) (in_flight s))"

section \<open>Properties of the cookie jar\<close>

lemma split_not_Nil: "split sep s \<noteq> []"
  by (induction s) (auto split: list.splits)










subsection \<open>Entries without \<open>=\<close>\<close>

lemma indexOf_absent: "c \<notin> set s \<Longrightarrow> indexOf s c = - 1"
  by (induction s) (auto simp: Let_def)

text \<open>The all-in-one file skips an entry whose first segment has no \<open>=\<close>, wherever it
  stands in the list, and merges the entries around it.\<close>

lemma index_store_line_skips:
  "CHR ''='' \<notin> set (hd (split CHR '';'' line)) \<Longrightarrow> index_store_line j line = j"
  by (simp add: index_store_line_def Let_def indexOf_absent)

lemma index_storeCookies_skips:
  "CHR ''='' \<notin> set (hd (split CHR '';'' bad)) \<Longrightarrow>
   index_storeCookies j (Some (Many (pre @ bad # post))) =
   index_storeCookies (index_storeCookies j (Some (Many pre))) (Some (Many post))"
  by (simp add: index_storeCookies_def index_store_line_skips)

lemma index_storeCookies_bad_entry:
  "index_storeCookies [] (Some (Many [''bad-entry-no-equals'', ''a=1''])) = [(''a'', ''1'')]"
  by (simp add: index_storeCookies_def index_store_line_def jar_set_def slice_def slice_from_def
      trim_def isWhiteSpace_def)

text \<open>
  Claim C3: an entry whose first segment contains no \<open>=\<close> is skipped without an
  exception, and the other entries are still merged. The all-in-one file does so
  (\<open>index_storeCookies_skips\<close>); \<open>storeCookies\<close> of the cookie utilities module does not:
  on the list of the claim it throws a \<open>TypeError\<close> at the first entry and never merges
  \<open>a=1\<close>.
\<close>

theorem C3_storeCookies_throws_without_eq:
  "storeCookies [] (Some (Many [''bad-entry-no-equals'', ''a=1''])) = Inl (TypeError, [])"
  by (simp add: storeCookies_def store_line_def)

text \<open>
  Claim C10: the two copies of \<open>storeCookies\<close> give the same jar on every input. They do
  not: a value that contains \<open>=\<close> is cut at its first \<open>=\<close> by the cookie utilities module
  (\<open>nv.split("=")\<close> keeps the second part only) and kept whole by the all-in-one file, and
  an entry without \<open>=\<close> makes the former throw where the latter skips it.
\<close>

theorem C10_storeCookies_copies_differ:
  "storeCookies [] (Some (Single ''sid=abc==; Path=/'')) = Inr [(''sid'', ''abc'')]
   \<and> index_storeCookies [] (Some (Single ''sid=abc==; Path=/'')) = [(''sid'', ''abc=='')]
   \<and> storeCookies [] (Some (Single ''bad-entry-no-equals'')) = Inl (TypeError, [])
   \<and> index_storeCookies [] (Some (Single ''bad-entry-no-equals'')) = []"
  by (simp add: storeCookies_def store_line_def index_storeCookies_def index_store_line_def
      jar_set_def slice_def slice_from_def trim_def isWhiteSpace_def)

section \<open>Where the two copies of \<open>storeCookies\<close> agree\<close>

text \<open>On entries whose first segment has exactly one \<open>=\<close> the two copies store the same
  pair.\<close>

lemma split_absent: "c \<notin> set v \<Longrightarrow> split c v = [v]"
  by (induction v) auto

lemma split_first: "c \<notin> set n \<Longrightarrow> split c (n @ c # v) = n # split c v"
  by (induction n) auto

lemma indexOf_first: "c \<notin> set n \<Longrightarrow> indexOf (n @ c # v) c = int (length n)"
  by (induction n) (auto simp: Let_def)

lemma one_eq_decompose:
  assumes "count_list nv c = 1"
  obtains n v where "nv = n @ c # v" and "c \<notin> set n" and "c \<notin> set v"
proof -
  have "c \<in> set nv" using assms by (metis count_list_0_iff zero_neq_one)
  then obtain n v where nv: "nv = n @ c # v" and n: "c \<notin> set n"
    by (meson split_list_first)
  have "count_list n c = 0" using n by (simp add: count_list_0_iff)
  then have "count_list v c = 0" using assms nv by simp
  then have "c \<notin> set v" by (simp add: count_list_0_iff)
  then show ?thesis using that nv n by blast
qed

lemma store_line_agree:
  assumes "count_list (hd (split CHR '';'' line)) CHR ''='' = 1"
  shows "store_line j line = Inr (index_store_line j line)"
proof -
  obtain n v where nv: "hd (split CHR '';'' line) = n @ CHR ''='' # v"
    and n: "CHR ''='' \<notin> set n" and v: "CHR ''='' \<notin> set v"
    using one_eq_decompose [OF assms] by blast
  have parts: "split CHR ''='' (n @ CHR ''='' # v) = [n, v]"
    by (simp add: split_first [OF n] split_absent [OF v])
  have idx: "indexOf (n @ CHR ''='' # v) CHR ''='' = int (length n)"
    by (rule indexOf_first [OF n])
  have suc: "nat (int (length n) + 1) = Suc (length n)" by simp
  show ?thesis
    by (simp add: store_line_def index_store_line_def nv parts idx suc slice_def slice_from_def
        Let_def del: of_nat_Suc)
qed

lemma forEach_store_agree:
  "list_all (\<lambda>line. count_list (hd (split CHR '';'' line)) CHR ''='' = 1) ls \<Longrightarrow>
   forEach_store j ls = Inr (foldl index_store_line j ls)"
  by (induction ls arbitrary: j) (simp_all add: store_line_agree)

lemma storeCookies_agree:
  assumes "list_all (\<lambda>line. count_list (hd (split CHR '';'' line)) CHR ''='' = 1)
             (case raw of None \<Rightarrow> [] | Some r \<Rightarrow> lines_of r)"
  shows "storeCookies j raw = Inr (index_storeCookies j raw)"
proof (cases raw)
  case None
  then show ?thesis by (simp add: storeCookies_def index_storeCookies_def)
next
  case (Some r)
  then show ?thesis using assms
    by (simp add: storeCookies_def index_storeCookies_def forEach_store_agree)
qed

section \<open>Last write wins\<close>

lemma hd_split: "hd (split c s) = takeWhile (\<lambda>x. x \<noteq> c) s"
proof (induction s)
  case Nil
  then show ?case by simp
next
  case (Cons x xs)
  then show ?case using split_not_Nil [of c xs] by (cases "split c xs") auto
qed













text \<open>The examples of the specification, in both copies.\<close>

lemma merge_examples:
  "storeCookies_of cp [(''b'', ''2'')] (Some (Single '' a = 1 ; Path=/; HttpOnly'')) =
     Inr [(''b'', ''2''), (''a'', ''1'')]
   \<and> storeCookies_of cp [] (Some (Single ''a=1'')) = Inr [(''a'', ''1'')]
   \<and> storeCookies_of cp [(''a'', ''1'')] (Some (Single ''a=1'')) = Inr [(''a'', ''1'')]
   \<and> storeCookies_of cp [(''a'', ''1'')] (Some (Single ''a=2'')) = Inr [(''a'', ''2'')]
   \<and> storeCookies_of cp [] (Some (Many [''a=1'', ''b=2'', ''a=3''])) = Inr [(''a'', ''3''), (''b'', ''2'')]"
  by (cases cp)
    (simp_all add: storeCookies_def store_line_def index_storeCookies_def index_store_line_def
      jar_set_def slice_def slice_from_def trim_def isWhiteSpace_def)

section \<open>The Cookie header\<close>


lemma set_trim: "set (trim s) \<subseteq> set s"
proof -
  have "set (trim s) = set (dropWhile isWhiteSpace (rev (dropWhile isWhiteSpace s)))"
    by (simp add: trim_def)
  also have "\<dots> \<subseteq> set (rev (dropWhile isWhiteSpace s))" by (auto dest: set_dropWhileD)
  also have "\<dots> \<subseteq> set s" by (auto dest: set_dropWhileD)
  finally show ?thesis .
qed

lemma split_parts_subset: "p \<in> set (split c s) \<Longrightarrow> set p \<subseteq> set s"
proof (induction s arbitrary: p)
  case Nil
  then show ?case by simp
next
  case (Cons x xs)
  obtain u us where u: "split c xs = u # us"
    using split_not_Nil [of c xs] by (cases "split c xs") auto
  have iu: "set u \<subseteq> set xs" and ius: "\<And>q. q \<in> set us \<Longrightarrow> set q \<subseteq> set xs"
    using Cons.IH u by simp_all
  show ?case
  proof (cases "x = c")
    case True
    then have "p = [] \<or> p = u \<or> p \<in> set us" using Cons.prems u by simp
    then show ?thesis using iu ius by auto
  next
    case False
    then have "p = x # u \<or> p \<in> set us" using Cons.prems u by simp
    then show ?thesis using iu ius by auto
  qed
qed

lemma first_segment_no_semicolon: "CHR '';'' \<notin> set (hd (split CHR '';'' line))"
  using set_takeWhileD [of "CHR '';''" "\<lambda>x. x \<noteq> CHR '';''" line] by (auto simp: hd_split)

lemma no_semicolon_jar_set:
  "no_semicolon j \<Longrightarrow> CHR '';'' \<notin> set n \<Longrightarrow> CHR '';'' \<notin> set v \<Longrightarrow> no_semicolon (jar_set n v j)"
  by (induction j) (auto simp: no_semicolon_def jar_set_def)

lemma index_store_line_no_semicolon:
  assumes "no_semicolon j"
  shows "no_semicolon (index_store_line j line)"
proof -
  let ?pair = "hd (split CHR '';'' line)"
  have a: "\<And>k. CHR '';'' \<notin> set (trim (take k ?pair))"
    using first_segment_no_semicolon [of line] set_trim set_take_subset by fastforce
  have b: "\<And>k. CHR '';'' \<notin> set (trim (drop k ?pair))"
    using first_segment_no_semicolon [of line] set_trim set_drop_subset by fastforce
  show ?thesis
    using assms a b
    by (simp add: index_store_line_def Let_def slice_def slice_from_def no_semicolon_jar_set)
qed

lemma store_line_no_semicolon:
  assumes "no_semicolon j" and "store_line j line = Inr j'"
  shows "no_semicolon j'"
proof -
  let ?nv = "hd (split CHR '';'' line)"
  have part: "\<And>p. p \<in> set (split CHR ''='' ?nv) \<Longrightarrow> CHR '';'' \<notin> set (trim p)"
    using first_segment_no_semicolon [of line] split_parts_subset set_trim by fastforce
  obtain u us where u: "split CHR ''='' ?nv = u # us"
    using split_not_Nil [of "CHR ''=''" ?nv] by (cases "split CHR ''='' ?nv") auto
  show ?thesis
    using assms part u
    by (auto simp: store_line_def Let_def no_semicolon_jar_set split: if_splits list.splits)
qed

lemma forEach_store_no_semicolon:
  "no_semicolon j \<Longrightarrow>
   (case forEach_store j ls of Inl (e, j') \<Rightarrow> no_semicolon j' | Inr j' \<Rightarrow> no_semicolon j')"
proof (induction ls arbitrary: j)
  case Nil
  then show ?case by simp
next
  case (Cons l ls)
  show ?case
  proof (cases "store_line j l")
    case (Inl e)
    then show ?thesis using Cons.prems by simp
  next
    case (Inr j1)
    then show ?thesis using Cons store_line_no_semicolon by simp
  qed
qed

lemma foldl_index_store_line_no_semicolon:
  "no_semicolon j \<Longrightarrow> no_semicolon (foldl index_store_line j ls)"
  by (induction ls arbitrary: j) (simp_all add: index_store_line_no_semicolon)

lemma storeCookies_of_no_semicolon:
  assumes "no_semicolon j"
  shows "(case storeCookies_of cp j raw of
            Inl (e, j') \<Rightarrow> no_semicolon j'
          | Inr j' \<Rightarrow> no_semicolon j')"
proof (cases cp)
  case Modular
  then show ?thesis using assms forEach_store_no_semicolon [OF assms]
    by (simp add: storeCookies_def split: option.splits)
next
  case AllInOne
  then show ?thesis using assms foldl_index_store_line_no_semicolon [OF assms]
    by (simp add: index_storeCookies_def split: option.splits)
qed












section \<open>The path matcher\<close>

lemma startsWith_prefix: "startsWith s p = prefix p s"
proof
  assume "startsWith s p"
  then have "s = p @ drop (length p) s"
    by (metis append_take_drop_id startsWith_def)
  then show "prefix p s" by (metis prefixI)
next
  assume "prefix p s"
  then show "startsWith s p" by (auto simp: startsWith_def prefix_def)
qed

lemma rule_test_spec: "rule_test path r = spec_rule_matches r path"
proof (cases r)
  case (Str p)
  show ?thesis
  proof (cases "prefix p path")
    case True
    then obtain rest where "path = p @ rest" by (auto simp: prefix_def)
    then show ?thesis using Str
      by (cases rest) (simp_all add: startsWith_prefix charAt_def nth_append)
  next
    case False
    then show ?thesis using Str by (simp add: startsWith_prefix)
  qed
next
  case (Pat re)
  then show ?thesis by simp
qed

text \<open>
  Claim C6: the path matcher is true exactly when some rule matches, a string rule when
  the path starts with it and the character right after the prefix is absent or \<open>/\<close>, a
  pattern rule when it accepts the path; the rule \<open>"/api"\<close> matches \<open>/api\<close> and
  \<open>/api/users\<close> and not \<open>/apikey\<close>.
\<close>

theorem C6_path_matcher:
  "filterFunction rules path = (\<exists>r. r \<in> set rules \<and> spec_rule_matches r path)
   \<and> filterFunction [Str ''/api''] ''/api''
   \<and> filterFunction [Str ''/api''] ''/api/users''
   \<and> \<not> filterFunction [Str ''/api''] ''/apikey''"
proof -
  have "filterFunction rules path = (\<exists>r. r \<in> set rules \<and> spec_rule_matches r path)"
    by (auto simp: filterFunction_def list_ex_iff rule_test_spec)
  moreover have "filterFunction [Str ''/api''] ''/api''"
    by (simp add: filterFunction_def startsWith_def)
  moreover have "filterFunction [Str ''/api''] ''/api/users''"
    by (simp add: filterFunction_def startsWith_def charAt_def)
  moreover have "\<not> filterFunction [Str ''/api''] ''/apikey''"
    by (simp add: filterFunction_def startsWith_def charAt_def)
  ultimately show ?thesis by blast
qed

section \<open>The two regular expressions\<close>

lemma rmatch_lit:
  "rmatch ic (lit w) (pos, s) =
     (if ci_prefix ic w s then [(pos + length w, drop (length w) s)] else [])"
proof (induction w arbitrary: pos s)
  case Nil
  then show ?case by simp
next
  case (Cons c cs)
  then show ?case by (cases s) simp_all
qed

lemma rmatch_Chr: "rmatch ic (Chr c) (pos, s) = (if ci_prefix ic [c] s then [(Suc pos, drop 1 s)] else [])"
  by (cases s) simp_all

lemma ci_prefix_append:
  "ci_prefix ic (u @ v) s = (ci_prefix ic u s \<and> ci_prefix ic v (drop (length u) s))"
proof (induction u arbitrary: s)
  case Nil
  then show ?case by simp
next
  case (Cons c cs)
  then show ?case by (cases s) auto
qed

lemma rmatch_Seq_lit:
  "rmatch ic (Seq (lit w) r) (pos, s) =
     (if ci_prefix ic w s then rmatch ic r (pos + length w, drop (length w) s) else [])"
  by (simp add: rmatch_lit)

lemma rmatch_Seq_Chr:
  "rmatch ic (Seq (Chr c) r) (pos, s) =
     (if ci_prefix ic [c] s then rmatch ic r (Suc pos, drop 1 s) else [])"
  by (simp add: rmatch_Chr del: rmatch.simps(1))

lemma rmatch_Seq_Alt:
  "rmatch ic (Seq (Alt a b) r) st = rmatch ic (Seq a r) st @ rmatch ic (Seq b r) st"
  by simp

lemma login_sso_here_aux:
  "(rmatch True (Seq (Chr CHR ''/'') (Seq (Alt (lit ''login'') (lit ''sso'')) (Chr CHR ''/''))) (i, t) \<noteq> []) =
     (ci_prefix True (''/'' @ ''login'' @ ''/'') t \<or> ci_prefix True (''/'' @ ''sso'' @ ''/'') t)"
  apply (simp only: ci_prefix_append rmatch_Seq_Chr rmatch_Seq_Alt rmatch_Seq_lit rmatch_Chr)
  apply (simp del: rmatch.simps ci_prefix.simps lit.simps)
  done

lemma login_sso_here:
  "(rmatch True (pattern login_sso_regex) (i, t) \<noteq> []) =
     (ci_prefix True ''/login/'' t \<or> ci_prefix True ''/sso/'' t)"
  using login_sso_here_aux [of i t] by (simp add: login_sso_regex_def del: rmatch.simps ci_prefix.simps lit.simps)

lemma api_here:
  "(rmatch False (pattern api_regex) (i, t) \<noteq> []) = (i = 0 \<and> ci_prefix False ''/api'' t)"
  by (simp add: api_regex_def rmatch_lit del: ci_prefix.simps lit.simps)

lemma RegExp_test_iff:
  "RegExp_test re s = (\<exists>i\<le>length s. rmatch (ignoreCase re) (pattern re) (i, drop i s) \<noteq> [])"
proof -
  have mem: "\<And>i. (i \<in> set [0..<Suc (length s)]) = (i \<le> length s)"
    by (simp only: set_upt atLeastLessThan_iff) auto
  show ?thesis
    unfolding RegExp_test_def list_ex_iff Bex_def mem by (rule refl)
qed

lemma Canonicalize_False_eq: "(Canonicalize False x = Canonicalize False c) = (x = c)"
  by (simp add: Canonicalize_def)

lemma ci_prefix_False: "ci_prefix False w s = prefix w s"
proof (induction w arbitrary: s)
  case Nil
  then show ?case by simp
next
  case (Cons c cs)
  then show ?case by (cases s) (auto simp: Canonicalize_False_eq)
qed

lemma api_regex_test: "RegExp_test api_regex s = prefix ''/api'' s"
proof -
  have "RegExp_test api_regex s = (\<exists>i\<le>length s. i = 0 \<and> ci_prefix False ''/api'' (drop i s))"
    unfolding RegExp_test_iff using api_here by (simp add: api_regex_def)
  also have "\<dots> = ci_prefix False ''/api'' s" by auto
  finally show ?thesis by (simp only: ci_prefix_False)
qed

lemma canon_unit_plain:
  assumes "(97 \<le> m \<and> m \<le> 122) \<or> m = 47"
  shows "(let cu = toUpperCase_unit m in if 128 \<le> m \<and> cu < 128 then m else cu) =
           (if m = 47 then 47 else m - 32)"
  using assms unfolding toUpperCase_unit_def Let_def by auto

lemma canon_unit_any:
  "(let cu = toUpperCase_unit n in if 128 \<le> n \<and> cu < 128 then n else cu) =
     (if 97 \<le> n \<and> n \<le> 122 then n - 32 else if n < 128 then n else
        (let cu = toUpperCase_unit n in if cu < 128 then n else cu))"
  unfolding toUpperCase_unit_def Let_def by auto

lemma canon_unit_high:
  assumes "128 \<le> n"
  shows "128 \<le> (let cu = toUpperCase_unit n in if cu < 128 then n else cu)"
  using assms unfolding Let_def by auto

lemma canon_units:
  assumes "(97 \<le> m \<and> m \<le> 122) \<or> m = 47"
  shows "((let cu = toUpperCase_unit n in if 128 \<le> n \<and> cu < 128 then n else cu) =
          (let cu = toUpperCase_unit m in if 128 \<le> m \<and> cu < 128 then m else cu))
         = ((if 65 \<le> n \<and> n \<le> 90 then n + 32 else n) = m)"
proof (cases "128 \<le> n")
  case True
  have "128 \<le> (let cu = toUpperCase_unit n in if 128 \<le> n \<and> cu < 128 then n else cu)"
    using canon_unit_high [OF True] True by (simp add: Let_def)
  moreover have "(let cu = toUpperCase_unit m in if 128 \<le> m \<and> cu < 128 then m else cu) < 128"
    unfolding canon_unit_plain [OF assms] using assms by auto
  ultimately show ?thesis using True assms by auto
next
  case False
  show ?thesis
    unfolding canon_unit_plain [OF assms] canon_unit_any [of n]
    using False assms by (cases "97 \<le> n \<and> n \<le> 122") auto
qed

lemma of_char_ascii_lower:
  "(of_char (ascii_lower x) :: nat) =
     (if 65 \<le> (of_char x :: nat) \<and> (of_char x :: nat) \<le> 90 then of_char x + 32 else of_char x)"
  by (simp add: ascii_lower_def Let_def)

lemma Canonicalize_plain:
  assumes "plain c"
  shows "(Canonicalize True x = Canonicalize True c) = (ascii_lower x = c)"
proof -
  have "(ascii_lower x = c) = ((of_char (ascii_lower x) :: nat) = of_char c)"
    by simp
  also have "\<dots> = (Canonicalize True x = Canonicalize True c)"
    unfolding of_char_ascii_lower Canonicalize_def
    using canon_units [of "of_char c" "of_char x"] assms
    by (simp add: plain_def Let_def)
  finally show ?thesis by simp
qed

lemma ci_prefix_True:
  "list_all plain w \<Longrightarrow> ci_prefix True w s = prefix w (map ascii_lower s)"
proof (induction w arbitrary: s)
  case Nil
  then show ?case by simp
next
  case (Cons c cs)
  then show ?case by (cases s) (auto simp: Canonicalize_plain)
qed

lemma sublist_drop_iff: "sublist w ys = (\<exists>i\<le>length ys. prefix w (drop i ys))"
proof
  assume "sublist w ys"
  then obtain ps ss where "ys = ps @ w @ ss" by (auto simp: sublist_def)
  then have "length ps \<le> length ys \<and> prefix w (drop (length ps) ys)" by simp
  then show "\<exists>i\<le>length ys. prefix w (drop i ys)" by blast
next
  assume "\<exists>i\<le>length ys. prefix w (drop i ys)"
  then obtain i ss where "drop i ys = w @ ss" by (auto simp: prefix_def)
  then have "ys = take i ys @ w @ ss" by (metis append_take_drop_id)
  then show "sublist w ys" unfolding sublist_def by blast
qed

lemma login_sso_regex_test:
  "RegExp_test login_sso_regex s = (contains_ci ''/login/'' s \<or> contains_ci ''/sso/'' s)"
proof -
  have p1: "list_all plain ''/login/''" and p2: "list_all plain ''/sso/''"
    by (simp_all add: plain_def)
  have "RegExp_test login_sso_regex s =
      (\<exists>i\<le>length s. ci_prefix True ''/login/'' (drop i s) \<or> ci_prefix True ''/sso/'' (drop i s))"
    unfolding RegExp_test_iff using login_sso_here by (simp add: login_sso_regex_def)
  also have "\<dots> = (\<exists>i\<le>length s. prefix ''/login/'' (drop i (map ascii_lower s))
                      \<or> prefix ''/sso/'' (drop i (map ascii_lower s)))"
    by (simp only: ci_prefix_True [OF p1] ci_prefix_True [OF p2] drop_map)
  also have "\<dots> = (contains_ci ''/login/'' s \<or> contains_ci ''/sso/'' s)"
    unfolding contains_ci_def sublist_drop_iff by auto
  finally show ?thesis .
qed

text \<open>
  Claim C5: the default detector is true exactly when the status is 401, or the status
  is 302 and the Location header contains \<open>/login/\<close> or \<open>/sso/\<close> without regard to case
  (an absent header counts as the empty string); it is the detector \<open>normalizeOptions\<close>
  installs when none is configured, and the four examples of the claim hold.
\<close>

theorem C5_default_unauthDetector:
  "default_unauthDetector status hdrs = spec_isUnauthenticated status hdrs
   \<and> unauthDetector (normalizeOptions (opts\<lparr>opt_unauthDetector := None\<rparr>)) = default_unauthDetector
   \<and> default_unauthDetector 401 \<lparr>location = None, set_cookie = None\<rparr>
   \<and> default_unauthDetector 302 \<lparr>location = Some ''/sso/callback'', set_cookie = None\<rparr>
   \<and> \<not> default_unauthDetector 302 \<lparr>location = Some ''/other'', set_cookie = None\<rparr>
   \<and> \<not> default_unauthDetector 200 \<lparr>location = None, set_cookie = None\<rparr>"
proof -
  have "default_unauthDetector status hdrs = spec_isUnauthenticated status hdrs"
    by (simp add: default_unauthDetector_def spec_isUnauthenticated_def login_sso_regex_test Let_def)
  moreover have "unauthDetector (normalizeOptions (opts\<lparr>opt_unauthDetector := None\<rparr>)) = default_unauthDetector"
    by (simp add: normalizeOptions_def)
  moreover have "default_unauthDetector 401 \<lparr>location = None, set_cookie = None\<rparr>"
    by (simp add: default_unauthDetector_def)
  moreover have "default_unauthDetector 302 \<lparr>location = Some ''/sso/callback'', set_cookie = None\<rparr>"
    by code_simp
  moreover have "\<not> default_unauthDetector 302 \<lparr>location = Some ''/other'', set_cookie = None\<rparr>"
    by code_simp
  moreover have "\<not> default_unauthDetector 200 \<lparr>location = None, set_cookie = None\<rparr>"
    by (simp add: default_unauthDetector_def)
  ultimately show ?thesis by blast
qed

text \<open>
  Claim C7: with no \<open>apiPaths\<close> configured the default rule is the prefix \<open>/api\<close> with the
  literal-prefix semantics, so \<open>/apikey\<close> is not proxied. The default of the code is the
  pattern \<open>/^\/api/\<close>, which accepts \<open>/apikey\<close>, while the string rule \<open>"/api"\<close> would
  not.
\<close>

theorem C7_default_apiPaths_counterexample:
  "filterFunction
     (apiPaths (normalizeOptions
        \<lparr>opt_apiPaths = None, opt_headlessLogin = None, opt_ws = None, opt_unauthDetector = None\<rparr>))
     ''/apikey''
   \<and> \<not> spec_rule_matches (Str ''/api'') ''/apikey''"
  by (simp add: normalizeOptions_def filterFunction_def api_regex_test)

text \<open>
  Claim C7 as amended: with no \<open>apiPaths\<close> configured the one default rule is the pattern
  \<open>/^\/api/\<close>, and a path is proxied exactly when it starts with \<open>/api\<close>: \<open>/api\<close>,
  \<open>/api/users\<close> and also \<open>/apikey\<close>.
\<close>

theorem C7_default_apiPaths:
  "apiPaths (normalizeOptions (opts\<lparr>opt_apiPaths := None\<rparr>)) = [Pat (RegExp_test api_regex)]
   \<and> filterFunction (apiPaths (normalizeOptions (opts\<lparr>opt_apiPaths := None\<rparr>))) path
       = prefix ''/api'' path
   \<and> filterFunction (apiPaths (normalizeOptions (opts\<lparr>opt_apiPaths := None\<rparr>))) ''/api''
   \<and> filterFunction (apiPaths (normalizeOptions (opts\<lparr>opt_apiPaths := None\<rparr>))) ''/api/users''
   \<and> filterFunction (apiPaths (normalizeOptions (opts\<lparr>opt_apiPaths := None\<rparr>))) ''/apikey''"
  by (simp add: normalizeOptions_def filterFunction_def api_regex_test)

section \<open>Properties of the headless login\<close>

lemma login_settle_no_throw: "snd (login_settle cp label ax st) = None"
  by (simp add: login_settle_def split: sum.splits prod.splits)

lemma login_settle_Rejected:
  "login_settle cp label (Rejected e) st = ((fst st, snd st @ [LoginFailed label e]), None)"
  by (simp add: login_settle_def login_try_def login_catch_def)

lemma login_settle_AllInOne_Fulfilled:
  "login_settle AllInOne label (Fulfilled sc) st =
     ((index_storeCookies (fst st) (map_option Many sc), snd st @ [LoginSucceeded label]), None)"
  by (simp add: login_settle_def login_try_def)

lemma login_settle_Modular_partial:
  "login_settle Modular ''refresh'' (Fulfilled (Some [''a=1'', ''bad''])) ([], []) =
     (([(''a'', ''1'')], [LoginFailed ''refresh'' (Internal TypeError)]), None)"
  by (simp add: login_settle_def login_try_def login_catch_def storeCookies_def store_line_def
      jar_set_def trim_def isWhiteSpace_def)

lemma doHeadlessLogin_no_throw: "snd (doHeadlessLogin cp st options label ax) = None"
  by (simp add: doHeadlessLogin_def login_settle_no_throw)

lemma doHeadlessLogin_Rejected:
  "doHeadlessLogin cp st options label (Rejected e) =
     (if headlessLogin options = None then (st, None)
      else ((fst st, snd st @ [LoginFailed label e]), None))"
  by (simp add: doHeadlessLogin_def login_settle_Rejected)

lemma login_settle_AllInOne:
  "login_settle AllInOne label ax st =
     (case ax of
        Rejected e \<Rightarrow> ((fst st, snd st @ [LoginFailed label e]), None)
      | Fulfilled sc \<Rightarrow>
          ((index_storeCookies (fst st) (map_option Many sc), snd st @ [LoginSucceeded label]), None))"
  by (cases ax) (simp_all add: login_settle_def login_try_def login_catch_def)

text \<open>
  Claim C9: \<open>doHeadlessLogin\<close> never lets an exception out, and when the attempt fails
  the failure is logged and the jar is left as it was. No exception leaves the function in
  either copy (\<open>doHeadlessLogin_no_throw\<close>), and a rejected request is logged with the jar
  unchanged (\<open>doHeadlessLogin_Rejected\<close>). But in the modular copy an answer whose
  Set-Cookie list is \<open>a=1\<close>, \<open>bad\<close> makes \<open>storeCookies\<close> throw inside the \<open>try\<close>
  after \<open>a=1\<close> is stored: the attempt is logged as failed and the jar has changed. The
  all-in-one file logs a success for the same answer.
\<close>

theorem C9_failure_after_partial_merge:
  "doHeadlessLogin Modular ([(''x'', ''0'')], []) example_options ''refresh''
     (Fulfilled (Some [''a=1'', ''bad''])) =
     (([(''x'', ''0''), (''a'', ''1'')], [LoginFailed ''refresh'' (Internal TypeError)]), None)
   \<and> doHeadlessLogin AllInOne ([(''x'', ''0'')], []) example_options ''refresh''
     (Fulfilled (Some [''a=1'', ''bad''])) =
     (([(''x'', ''0''), (''a'', ''1'')], [LoginSucceeded ''refresh'']), None)"
  by (simp add: doHeadlessLogin_def example_options_def login_settle_def login_try_def
      login_catch_def storeCookies_def store_line_def index_storeCookies_def index_store_line_def
      jar_set_def slice_def slice_from_def trim_def isWhiteSpace_def)

section \<open>The refresh gate\<close>

lemma store_line_isl: "isl (store_line j l) = isl (store_line [] l)"
  by (simp add: store_line_def Let_def split: list.splits)

lemma forEach_store_isl: "isl (forEach_store j ls) = isl (forEach_store [] ls)"
proof (induction ls arbitrary: j)
  case Nil
  then show ?case by simp
next
  case (Cons l ls)
  show ?case
  proof (cases "isl (store_line [] l)")
    case True
    then have "isl (store_line j l)" using store_line_isl by blast
    then show ?thesis using True by (auto simp: isl_def)
  next
    case False
    then have nj: "\<not> isl (store_line j l)" using store_line_isl by blast
    obtain j1 where j1: "store_line j l = Inr j1" using nj by (cases "store_line j l") auto
    obtain j2 where j2: "store_line [] l = Inr j2" using False by (cases "store_line [] l") auto
    show ?thesis using j1 j2 Cons.IH [of j1] Cons.IH [of j2] by simp
  qed
qed

lemma storeCookies_of_isl: "isl (storeCookies_of cp j raw) = isl (storeCookies_of cp [] raw)"
proof (cases cp)
  case Modular
  then show ?thesis using forEach_store_isl [of j]
    by (simp add: storeCookies_def split: option.splits)
next
  case AllInOne
  then show ?thesis by simp
qed

lemma trigger_merges:
  assumes "is_trigger cp options r"
  obtains j' where "storeCookies_of cp j (map_option Many (set_cookie (headers r))) = Inr j'"
proof -
  have "\<not> isl (storeCookies_of cp j (map_option Many (set_cookie (headers r))))"
    using assms storeCookies_of_isl [of cp j] by (simp add: is_trigger_def merge_throws_def)
  then show ?thesis using that
    by (cases "storeCookies_of cp j (map_option Many (set_cookie (headers r)))") auto
qed









text \<open>With the headless login disabled a trigger calls \<open>doHeadlessLogin\<close>, which returns
  at once, and leaves no promise recorded.\<close>

lemma on_proxyRes_trigger_disabled:
  assumes "activeRefreshPromise s = None" and "headlessLogin options = None"
    and "is_trigger cp options r"
  shows "activeRefreshPromise (on_proxyRes cp options s r) = None
       \<and> login_calls (on_proxyRes cp options s r) = Suc (login_calls s)
       \<and> in_flight (on_proxyRes cp options s r) = in_flight s"
proof -
  obtain j' where "storeCookies_of cp (jar s) (map_option Many (set_cookie (headers r))) = Inr j'"
    using trigger_merges [OF assms(3)] by blast
  then show ?thesis using assms
    by (simp add: on_proxyRes_def refresh_if_unauth_def start_refresh_def is_trigger_def Let_def)
qed

text \<open>
  The gate and the reactive refresh do not meet: the \<open>proxyReq\<close> handler does not read
  the variable of the reactive refresh, and the \<open>proxyRes\<close> handler does not write the
  variable of the gate. Whatever events came before, the variable of the gate is empty in
  the modular copy, and in the all-in-one file it holds nothing but a startup login that
  is in flight.
\<close>

lemma gate_ignores_reactive_refresh:
  "on_proxyReq cp (s\<lparr>activeRefreshPromise := a\<rparr>) e b =
     (on_proxyReq cp s e b)\<lparr>activeRefreshPromise := a\<rparr>"
  by (simp add: on_proxyReq_def compose_cookies_def Let_def split: option.splits)

lemma reactive_refresh_leaves_gate:
  "refreshingPromise (on_proxyRes cp options s r) = refreshingPromise s"
  by (simp add: on_proxyRes_def refresh_if_unauth_def start_refresh_def Let_def
      split: sum.splits prod.splits)

lemma compose_cookies_fields:
  "refreshingPromise (compose_cookies cp s e b) = refreshingPromise s
   \<and> in_flight (compose_cookies cp s e b) = in_flight s
   \<and> login_calls (compose_cookies cp s e b) = login_calls s
   \<and> installed (compose_cookies cp s e b) = installed s
   \<and> activeRefreshPromise (compose_cookies cp s e b) = activeRefreshPromise s"
  by (simp add: compose_cookies_def Let_def)

lemma foldl_compose_fields:
  "refreshingPromise (foldl (\<lambda>s' u. compose_cookies cp s' (fst (snd u)) (snd (snd u))) s us)
     = refreshingPromise s
   \<and> in_flight (foldl (\<lambda>s' u. compose_cookies cp s' (fst (snd u)) (snd (snd u))) s us) = in_flight s
   \<and> login_calls (foldl (\<lambda>s' u. compose_cookies cp s' (fst (snd u)) (snd (snd u))) s us)
     = login_calls s"
  by (induction us arbitrary: s) (simp_all add: compose_cookies_fields)

lemma release_waiting_fields:
  "refreshingPromise (release_waiting cp p s) = refreshingPromise s
   \<and> in_flight (release_waiting cp p s) = in_flight s
   \<and> login_calls (release_waiting cp p s) = login_calls s"
  by (simp add: release_waiting_def foldl_compose_fields)

lemma map_of_filter_other:
  "p \<noteq> q \<Longrightarrow> map_of (filter (\<lambda>c. fst c \<noteq> q) xs) p = map_of xs p"
  by (induction xs) auto

lemma map_of_fresh: "list_all (\<lambda>c. fst c \<le> n) xs \<Longrightarrow> map_of xs (Suc n) = None"
  by (induction xs) auto

lemma gate_inv_step: "gate_inv cp s \<Longrightarrow> gate_inv cp (step cp options s ev)"
proof (cases ev)
  case ConfigureServer
  assume "gate_inv cp s"
  then show ?thesis using ConfigureServer
    by (cases cp)
      (auto simp: gate_inv_def on_configureServer_def install_proxy_def Let_def list_all_iff
        split: option.splits)
next
  case (ProxyReq e b)
  assume "gate_inv cp s"
  then show ?thesis using ProxyReq
    by (auto simp: gate_inv_def on_proxyReq_def compose_cookies_def Let_def split: option.splits)
next
  case (ProxyRes r)
  assume inv: "gate_inv cp s"
  have fresh: "map_of (in_flight s) (Suc (login_calls s)) = None"
    using inv by (simp add: gate_inv_def map_of_fresh)
  show ?thesis using inv ProxyRes fresh
    by (auto simp: gate_inv_def on_proxyRes_def refresh_if_unauth_def start_refresh_def Let_def
        list_all_iff split: sum.splits prod.splits option.splits)
next
  case (LoginSettled q ax)
  assume inv: "gate_inv cp s"
  show ?thesis
  proof (cases "map_of (in_flight s) q")
    case None
    then show ?thesis using inv LoginSettled by (simp add: on_loginSettled_def)
  next
    case (Some label)
    show ?thesis
    proof (cases "label = ''startup''")
      case True
      then show ?thesis using inv LoginSettled Some
        by (cases cp)
          (auto simp: gate_inv_def on_loginSettled_def install_proxy_def release_waiting_fields
            Let_def list_all_iff split: option.splits)
    next
      case False
      have other: "\<And>p. map_of (in_flight s) p = Some ''startup'' \<Longrightarrow> p \<noteq> q"
        using Some False by auto
      show ?thesis using inv LoginSettled Some False other
        by (auto simp: gate_inv_def on_loginSettled_def Let_def list_all_iff map_of_filter_other
            split: option.splits)
    qed
  qed
qed

lemma gate_inv_run: "gate_inv cp s \<Longrightarrow> gate_inv cp (run cp options s evs)"
  unfolding run_def by (induction evs arbitrary: s) (simp_all add: gate_inv_step)

lemma gate_holds_for_startup_only:
  "refreshingPromise (run Modular options init_state evs) = None
   \<and> (case refreshingPromise (run AllInOne options init_state evs) of
        None \<Rightarrow> True
      | Some p \<Rightarrow> map_of (in_flight (run AllInOne options init_state evs)) p = Some ''startup'')"
proof -
  have "\<And>cp. gate_inv cp init_state" by (simp add: gate_inv_def init_state_def)
  then have "\<And>cp. gate_inv cp (run cp options init_state evs)" by (rule gate_inv_run)
  from this [of Modular] this [of AllInOne] show ?thesis
    by (auto simp: gate_inv_def split: option.splits)
qed

text \<open>
  Claim C1: a request that begins while a refresh is in progress has its cookies composed
  only after that refresh has settled and its cookies are in the jar. In both copies the
  request of \<open>request_during_refresh\<close> arrives while the reactive refresh is in flight and
  its Cookie header is composed at once, from the jar as it is (\<open>session=old\<close>);
  when the refresh then settles with \<open>session=new\<close>, the jar changes and the header that
  was composed does not. The comment on \<open>gateRefresh\<close> says it is there to prevent
  requests while a login refresh is happening, but the variable it reads is never assigned
  in the modular copy, and holds nothing but a startup login in the all-in-one file
  (\<open>gate_holds_for_startup_only\<close>).
\<close>

theorem C1_request_not_held_for_refresh:
  "(let s = run Modular example_options init_state request_during_refresh
    in activeRefreshPromise s = Some 2 \<and> in_flight s = [(2, ''refresh'')]
       \<and> refreshingPromise s = None \<and> waiting s = []
       \<and> jar s = [(''session'', ''old'')] \<and> composed s = [Some ''session=old''])
   \<and> (let s = run AllInOne example_options init_state request_during_refresh
    in activeRefreshPromise s = Some 2 \<and> in_flight s = [(2, ''refresh'')]
       \<and> refreshingPromise s = None \<and> waiting s = []
       \<and> jar s = [(''session'', ''old'')] \<and> composed s = [Some ''session=old''])
   \<and> (let s = run Modular example_options init_state
                (request_during_refresh @ [LoginSettled 2 (Fulfilled (Some [''session=new'']))])
    in activeRefreshPromise s = None \<and> jar s = [(''session'', ''new'')]
       \<and> composed s = [Some ''session=old''])
   \<and> (let s = run AllInOne example_options init_state
                (request_during_refresh @ [LoginSettled 2 (Fulfilled (Some [''session=new'']))])
    in activeRefreshPromise s = None \<and> jar s = [(''session'', ''new'')]
       \<and> composed s = [Some ''session=old''])"
  by code_simp

end
